theory Spec2Isabelle
  imports Main "HOL-Library.Sublist" "HOL-Library.AList"
begin

section \<open>Values, frames and the session state\<close>

text \<open>
  Python values as far as the debugger looks at them: only their truth value and,
  for names, their presence in a namespace matter.
\<close>

datatype pyval = PyNone | PyBool bool | PyInt int | PyStr string

fun truthy :: "pyval \<Rightarrow> bool" where
  "truthy PyNone = False"
| "truthy (PyBool b) = b"
| "truthy (PyInt i) = (i \<noteq> 0)"
| "truthy (PyStr s) = (s \<noteq> [])"

datatype error = IndexError | AttributeError | AssertionError | TypeError | ValueError

text \<open>
  A code constant is either the marker object \<open>_HIDE_FRAME\<close> that the
  \<open>hideframe\<close> decorator appends to \<open>co_consts\<close>, or anything else.
\<close>

datatype const = HIDE_FRAME | OtherConst pyval

text \<open>
  \<open>f_locals\<close> "might be a list": subscripting it with a string then raises
  TypeError, which \<open>_is_hidden\<close> catches.
\<close>

datatype namespace = Mapping "string \<rightharpoonup> pyval" | NotMapping

text \<open>
  A frame of the host runtime. The debugger compares frames by identity (\<open>is\<close>);
  \<open>frame_id\<close> stands for the identity of the object.
\<close>

record frame =
  frame_id :: nat
  co_filename :: string
  co_name :: string
  co_names :: "string list"
  co_varnames :: "string list"
  co_consts :: "const list"
  f_globals :: "string \<rightharpoonup> pyval"
  f_locals :: namespace
  f_lineno :: int

type_synonym stack_entry = "frame \<times> int"

text \<open>
  The attributes of a \<open>Pdb\<close> instance that the modelled methods read or write.
  \<open>via_set_trace_frame\<close> is \<open>None\<close> while the attribute is not set
  (\<open>getattr(self, "_via_set_trace_frame", None)\<close>); \<open>executing_rc_lines\<close> is
  \<open>getattr(self, "_pdbpp_executing_rc_lines", False)\<close>; \<open>has_do name\<close> is
  \<open>hasattr(self, "do_" + name)\<close>, the table of the commands that the class and the
  standard library's \<open>pdb.Pdb\<close> define; \<open>tb_lineno\<close> maps a frame (its identity)
  to the line where its exception was raised; \<open>completions\<close> and
  \<open>lastcompstate\<close> are \<open>_completions\<close> and the two-element list
  \<open>_lastcompstate\<close>; \<open>use_colors\<close> is \<open>self.fancycompleter.config.use_colors\<close>.
\<close>

record pdb_state =
  enable_hidden_frames :: bool
  via_set_trace_frame :: "nat option"
  show_hidden_frames :: bool
  hidden_frames :: "stack_entry list"
  fullstack :: "stack_entry list"
  stack :: "stack_entry list"
  curindex :: int
  curframe :: "frame option"
  curframe_locals :: "string \<rightharpoonup> pyval"
  executing_rc_lines :: bool
  has_do :: "string \<Rightarrow> bool"
  tb_lineno :: "nat \<rightharpoonup> int"
  completions :: "string list"
  lastcompstate :: "string option \<times> int"
  use_colors :: bool

section \<open>Hidden frames\<close>

text \<open>
  The lookup of \<open>__tracebackhide__\<close>: first in the locals, on TypeError or KeyError
  in the globals, on KeyError there the frame is not hidden.
\<close>

definition tracebackhide :: "frame \<Rightarrow> pyval option" where
  "tracebackhide f =
     (case (case f_locals f of Mapping m \<Rightarrow> m ''__tracebackhide__'' | NotMapping \<Rightarrow> None) of
        Some tbh \<Rightarrow> Some tbh
      | None \<Rightarrow> f_globals f ''__tracebackhide__'')"

definition decorated :: "frame \<Rightarrow> bool" where
  "decorated f = (co_consts f \<noteq> [] \<and> last (co_consts f) = HIDE_FRAME)"

definition is_hidden :: "pdb_state \<Rightarrow> frame \<Rightarrow> bool" where
  "is_hidden self f =
     (if \<not> enable_hidden_frames self then False
      else if decorated f then True
      else if via_set_trace_frame self = Some (frame_id f) then False
      else if (case f_globals f ''__unittest'' of Some v \<Rightarrow> truthy v | None \<Rightarrow> False) then True
      else (case tracebackhide f of None \<Rightarrow> False | Some tbh \<Rightarrow> truthy tbh))"

text \<open>
  The loop of \<open>compute_stack\<close>: every entry is appended either to the hidden
  list or to the new stack.
\<close>

fun partition_stack ::
  "pdb_state \<Rightarrow> stack_entry list \<Rightarrow> stack_entry list \<Rightarrow> stack_entry list
     \<Rightarrow> stack_entry list \<times> stack_entry list" where
  "partition_stack self [] hidden newstack = (hidden, newstack)"
| "partition_stack self ((f, lineno) # rest) hidden newstack =
     (if is_hidden self f
      then partition_stack self rest (hidden @ [(f, lineno)]) newstack
      else partition_stack self rest hidden (newstack @ [(f, lineno)]))"

text \<open>
  \<open>compute_stack(fullstack, idx=None)\<close> returns the visible stack and the new
  index, and leaves the hidden entries in \<open>self._hidden_frames\<close>. \<open>list.pop()\<close>
  raises IndexError on an empty list.
\<close>

definition compute_stack ::
  "pdb_state \<Rightarrow> stack_entry list \<Rightarrow> int option
     \<Rightarrow> error + (stack_entry list \<times> int \<times> pdb_state)" where
  "compute_stack self fullstack0 idx0 =
     (if fullstack0 = [] then Inr (fullstack0, (case idx0 of Some i \<Rightarrow> i | None \<Rightarrow> 0), self)
      else
        let idx = (case idx0 of Some i \<Rightarrow> i | None \<Rightarrow> int (length fullstack0) - 1) in
        if show_hidden_frames self then Inr (fullstack0, idx, self)
        else
          let (hidden, newstack) = partition_stack self fullstack0 [] [] in
          if newstack = [] then
            (if hidden = [] then Inl IndexError
             else Inr ([last hidden], idx - int (length (butlast hidden)),
                       self\<lparr>hidden_frames := butlast hidden\<rparr>))
          else Inr (newstack, idx - int (length hidden), self\<lparr>hidden_frames := hidden\<rparr>))"

text \<open>
  The identities of the frames in a result of \<open>compute_stack\<close>: those of the visible
  stack, the index, and those of the hidden list.
\<close>

definition shown_ids ::
  "error + (stack_entry list \<times> int \<times> pdb_state) \<Rightarrow> error + (nat list \<times> int \<times> nat list)" where
  "shown_ids r =
     (case r of
        Inl e \<Rightarrow> Inl e
      | Inr (vis, idx, self1) \<Rightarrow>
          Inr (map (frame_id \<circ> fst) vis, idx, map (frame_id \<circ> fst) (hidden_frames self1)))"

text \<open>
  \<open>get_stack\<close> stores the full stack of the tracer and filters it.
\<close>

definition get_stack ::
  "pdb_state \<Rightarrow> stack_entry list \<Rightarrow> int
     \<Rightarrow> error + (stack_entry list \<times> int \<times> pdb_state)" where
  "get_stack self fullstack0 idx =
     compute_stack (self\<lparr>fullstack := fullstack0\<rparr>) fullstack0 (Some idx)"

text \<open>
  The \<open>for ... else\<close> of \<open>refresh_stack\<close>: the index of the first entry whose
  frame is the current frame.
\<close>

fun find_frame :: "frame option \<Rightarrow> stack_entry list \<Rightarrow> nat \<Rightarrow> nat option" where
  "find_frame cur [] i = None"
| "find_frame cur ((f, lineno) # rest) i =
     (if (case cur of Some c \<Rightarrow> frame_id f = frame_id c | None \<Rightarrow> False) then Some i
      else find_frame cur rest (Suc i))"

definition refresh_stack :: "pdb_state \<Rightarrow> error + pdb_state" where
  "refresh_stack self =
     (case compute_stack self (fullstack self) None of
        Inl e \<Rightarrow> Inl e
      | Inr (newstack, _, self1) \<Rightarrow>
          let self2 = self1\<lparr>stack := newstack\<rparr> in
          (case find_frame (curframe self2) newstack 0 of
             Some i \<Rightarrow> Inr (self2\<lparr>curindex := int i\<rparr>)
           | None \<Rightarrow>
               if newstack = [] then Inl IndexError
               else Inr (self2\<lparr>curindex := int (length newstack) - 1,
                                curframe := Some (fst (last newstack))\<rparr>)))"


section \<open>Session construction: \<open>PdbMeta.__call__\<close>\<close>

text \<open>
  Keyword arguments and the process environment are dictionaries with string keys;
  association lists keep them executable.
\<close>

type_synonym kwargs = "(string \<times> pyval) list"

definition pop :: "string \<Rightarrow> pyval \<Rightarrow> kwargs \<Rightarrow> pyval \<times> kwargs" where
  "pop k dflt kw = (case map_of kw k of Some v \<Rightarrow> (v, AList.delete k kw) | None \<Rightarrow> (dflt, kw))"

definition setdefault :: "string \<Rightarrow> pyval \<Rightarrow> kwargs \<Rightarrow> kwargs" where
  "setdefault k v kw = (case map_of kw k of Some _ \<Rightarrow> kw | None \<Rightarrow> kw @ [(k, v)])"

definition environ_get :: "(string \<times> string) list \<Rightarrow> string \<Rightarrow> string option" where
  "environ_get environ k = map_of environ k"

record pyclass =
  class_id :: nat
  qualname :: string

text \<open>
  The attributes of an instance that \<open>__call__\<close> and \<open>__init__\<close> read or set.
  \<open>force_use_as_global_pdb\<close> and \<open>has_botframe\<close> are the \<open>hasattr\<close> tests;
  \<open>env_HOME\<close> is \<open>None\<close> while \<open>_env\<close> is not set and otherwise holds
  \<open>os.environ.get("HOME")\<close> as it was then.
\<close>

record pdb_instance =
  inst_class :: pyclass
  in_interaction :: bool
  force_use_as_global_pdb :: bool
  has_botframe :: bool
  env_HOME :: "string option option"
  use_global_pdb_for_class_attr :: "pyclass option"
  set_trace_use_next :: bool
  inst_stdout :: pyval
  start_filename :: pyval
  start_lineno :: pyval
  use_colors_override :: "bool option"

text \<open>
  The thread-local slot: the recursion guard, the global instance, and whether a trace
  function is installed (\<open>sys.settrace\<close>).
\<close>

record thread_local =
  pdbpp_in_init :: bool
  GLOBAL_PDB :: "pdb_instance option"
  tracing :: bool

text \<open>
  What the code outside this repository does when \<open>__call__\<close> and \<open>__init__\<close>
  call it: the user's \<open>config.setup\<close> hook and the standard library's
  \<open>pdb.Pdb.__init__\<close> either return or raise; \<open>sys.stdout\<close> is some stream.
\<close>

record collaborators =
  config_setup :: "error option"
  stdlib_init :: "kwargs \<Rightarrow> error option"
  default_pdb_kwargs :: kwargs
  sys_stdout :: pyval

datatype constructed = OrigPdb kwargs | Reused pdb_instance | Fresh pdb_instance

subsection \<open>\<open>int(s)\<close> on a string\<close>

definition is_digit :: "char \<Rightarrow> bool" where
  "is_digit c = (c \<in> set ''0123456789'')"

definition is_space :: "char \<Rightarrow> bool" where
  "is_space c = (c \<in> set [CHR '' '', CHR 0x09, CHR 0x0A, CHR 0x0B, CHR 0x0C, CHR 0x0D,
                             CHR 0x1C, CHR 0x1D, CHR 0x1E, CHR 0x1F, CHR 0x85, CHR 0xA0])"

definition strip :: "string \<Rightarrow> string" where
  "strip s = rev (dropWhile is_space (rev (dropWhile is_space s)))"

definition digit_val :: "char \<Rightarrow> nat" where
  "digit_val c = of_char c - 48"

text \<open>
  Decimal digits with single underscores between them, as \<open>int\<close> accepts them; the
  flag says whether the previous character was a digit.
\<close>

fun parse_digits :: "string \<Rightarrow> bool \<Rightarrow> nat \<Rightarrow> nat option" where
  "parse_digits [] prev acc = (if prev then Some acc else None)"
| "parse_digits (c # cs) prev acc =
     (if is_digit c then parse_digits cs True (10 * acc + digit_val c)
      else if c = CHR ''_'' \<and> prev then parse_digits cs False acc
      else None)"

definition py_int :: "string \<Rightarrow> error + int" where
  "py_int s =
     (case strip s of
        [] \<Rightarrow> Inl ValueError
      | c # cs \<Rightarrow>
          if c = CHR ''-'' then
            (case parse_digits cs False 0 of Some n \<Rightarrow> Inr (- int n) | None \<Rightarrow> Inl ValueError)
          else if c = CHR ''+'' then
            (case parse_digits cs False 0 of Some n \<Rightarrow> Inr (int n) | None \<Rightarrow> Inl ValueError)
          else
            (case parse_digits (c # cs) False 0 of Some n \<Rightarrow> Inr (int n) | None \<Rightarrow> Inl ValueError))"

subsection \<open>\<open>Pdb.__init__\<close>\<close>

text \<open>
  \<open>Pdb.__init__\<close> pops its own keywords, runs the configuration hook, reads
  \<open>PDBPP_COLORS\<close> with \<open>bool(int(...))\<close>, and passes the remaining keywords, over
  the configured defaults, to the standard library's initialiser.
\<close>

definition pdb_init ::
  "collaborators \<Rightarrow> (string \<times> string) list \<Rightarrow> pdb_instance \<Rightarrow> kwargs
     \<Rightarrow> error + pdb_instance" where
  "pdb_init co environ obj kwds =
     (let (_, kwds1) = pop ''Config'' PyNone kwds;
          (lineno, kwds2) = pop ''start_lineno'' PyNone kwds1;
          (filename, kwds3) = pop ''start_filename'' PyNone kwds2;
          obj1 = obj\<lparr>start_lineno := lineno, start_filename := filename\<rparr>
      in case config_setup co of
           Some e \<Rightarrow> Inl e
         | None \<Rightarrow>
             (case (case environ_get environ ''PDBPP_COLORS'' of
                      None \<Rightarrow> Inr None
                    | Some v \<Rightarrow> (case py_int v of Inl e \<Rightarrow> Inl e | Inr i \<Rightarrow> Inr (Some (i \<noteq> 0)))) of
                Inl e \<Rightarrow> Inl e
              | Inr colors \<Rightarrow>
                  let obj2 = obj1\<lparr>use_colors_override := colors\<rparr>;
                      kwargs = foldl (\<lambda>kw (k, v). AList.update k v kw) (default_pdb_kwargs co) kwds3
                  in (case stdlib_init co kwargs of
                        Some e \<Rightarrow> Inl e
                      | None \<Rightarrow>
                          Inr (obj2\<lparr>inst_stdout :=
                                 (case map_of kwargs ''stdout'' of Some f \<Rightarrow> f | None \<Rightarrow> sys_stdout co)\<rparr>))))"

subsection \<open>The metaclass call\<close>

definition use_global_pdb_for_class ::
  "(string \<times> string) list \<Rightarrow> pdb_instance \<Rightarrow> pyclass \<Rightarrow> bool" where
  "use_global_pdb_for_class environ obj C =
     (if (case env_HOME obj of Some home \<Rightarrow> home \<noteq> environ_get environ ''HOME'' | None \<Rightarrow> False)
      then False
      else if class_id (inst_class obj) = class_id C then True
      else if (case use_global_pdb_for_class_attr obj of
                 Some D \<Rightarrow> class_id D = class_id C | None \<Rightarrow> False) then True
      else qualname C = qualname (inst_class obj))"

text \<open>
  The walk over the caller's frames, innermost first; the tail of the list is the
  \<open>f_back\<close> chain.
\<close>

fun called_for_set_trace :: "frame list \<Rightarrow> frame option" where
  "called_for_set_trace [] = None"
| "called_for_set_trace [f] = None"
| "called_for_set_trace (f # b # rest) =
     (if co_name f = ''set_trace'' \<and>
         (''breakpoint'' \<in> set (co_names b @ co_varnames b) \<or>
          ''set_trace'' \<in> set (co_names b @ co_varnames b))
      then Some f
      else called_for_set_trace (b # rest))"

definition new_instance :: "pyclass \<Rightarrow> pdb_instance" where
  "new_instance cls = \<lparr>inst_class = cls, in_interaction = False,
     force_use_as_global_pdb = False, has_botframe = False, env_HOME = None,
     use_global_pdb_for_class_attr = None, set_trace_use_next = False,
     inst_stdout = PyNone, start_filename = PyNone, start_lineno = PyNone,
     use_colors_override = None\<rparr>"

text \<open>
  The last part of \<open>__call__\<close> (from \<open>obj = cls.__new__(cls)\<close> on): a new
  instance is initialised and, unless suppressed, becomes the global one.
\<close>

definition construct_new ::
  "collaborators \<Rightarrow> (string \<times> string) list \<Rightarrow> thread_local \<Rightarrow> pyclass \<Rightarrow> frame option
     \<Rightarrow> pyval \<Rightarrow> kwargs \<Rightarrow> thread_local \<times> (error + constructed)" where
  "construct_new co environ local1 cls cfst use_global_pdb kwargs1 =
     (let obj = new_instance cls;
          kwargs2 = (case cfst of
                       Some f \<Rightarrow> setdefault ''start_lineno'' (PyInt (f_lineno f))
                                   (setdefault ''start_filename'' (PyStr (co_filename f)) kwargs1)
                     | None \<Rightarrow> kwargs1);
          (set_global_pdb, obj1, kwargs3) =
             (case map_of kwargs2 ''set_global_pdb'' of
                Some v \<Rightarrow> (v, (if truthy v then obj\<lparr>force_use_as_global_pdb := True\<rparr> else obj),
                           AList.delete ''set_global_pdb'' kwargs2)
              | None \<Rightarrow> (use_global_pdb, obj, kwargs2))
      in case pdb_init co environ obj1 kwargs3 of
           Inl e \<Rightarrow> (local1, Inl e)
         | Inr obj2 \<Rightarrow>
             if truthy set_global_pdb then
               let obj3 = obj2\<lparr>env_HOME := Some (environ_get environ ''HOME'')\<rparr>
               in (local1\<lparr>GLOBAL_PDB := Some obj3, pdbpp_in_init := False\<rparr>, Inr (Fresh obj3))
             else (local1\<lparr>pdbpp_in_init := False\<rparr>, Inr (Fresh obj2)))"

text \<open>
  \<open>PdbMeta.__call__(cls, *args, **kwargs)\<close>, with the caller's frames. It returns the
  thread-local slot as the call leaves it, and either the exception that propagates or
  the object returned. The source has no \<open>try\<close>: an exception of an initialiser leaves
  the function at that statement.
\<close>

definition pdbmeta_call ::
  "collaborators \<Rightarrow> (string \<times> string) list \<Rightarrow> thread_local \<Rightarrow> pyclass \<Rightarrow> frame list \<Rightarrow> kwargs
     \<Rightarrow> thread_local \<times> (error + constructed)" where
  "pdbmeta_call co environ local cls frames kwargs =
     (if pdbpp_in_init local then
        let (_, kwargs1) = pop ''Config'' PyNone kwargs in
        (case stdlib_init co kwargs1 of
           Some e \<Rightarrow> (local, Inl e)
         | None \<Rightarrow> (local\<lparr>pdbpp_in_init := False\<rparr>, Inr (OrigPdb kwargs1)))
      else
        let local1 = local\<lparr>pdbpp_in_init := True\<rparr>;
            global_pdb = GLOBAL_PDB local1;
            (use_global_pdb, kwargs1) =
               (case global_pdb of
                  Some g \<Rightarrow>
                    pop ''use_global_pdb''
                      (PyBool (\<not> in_interaction g \<and>
                         (case environ_get environ ''PDBPP_REUSE_GLOBAL_PDB'' of
                            Some v \<Rightarrow> v = ''1'' | None \<Rightarrow> True)))
                      kwargs
                | None \<Rightarrow> pop ''use_global_pdb'' (PyBool True) kwargs);
            cfst = called_for_set_trace frames
        in case (if truthy use_global_pdb \<and> cfst \<noteq> None then global_pdb else None) of
             Some g \<Rightarrow>
               if force_use_as_global_pdb g \<or> use_global_pdb_for_class environ g cls then
                 let g1 = (if has_botframe g then g\<lparr>set_trace_use_next := True\<rparr> else g);
                     local2 = (if has_botframe g then local1\<lparr>tracing := False\<rparr> else local1);
                     g2 = g1\<lparr>inst_stdout :=
                            (case map_of kwargs1 ''stdout'' of Some f \<Rightarrow> f | None \<Rightarrow> sys_stdout co)\<rparr>
                 in (local2\<lparr>GLOBAL_PDB := Some g2, pdbpp_in_init := False\<rparr>, Inr (Reused g2))
               else construct_new co environ local1 cls cfst use_global_pdb kwargs1
           | None \<Rightarrow> construct_new co environ local1 cls cfst use_global_pdb kwargs1)"


section \<open>Parsing a command line\<close>

definition quote :: char where
  "quote = CHR 0x27"

definition dquote :: char where
  "dquote = CHR 0x22"

definition identchar :: "char \<Rightarrow> bool" where
  "identchar c =
     (c \<in> set ''abcdefghijklmnopqrstuvwxyzABCDEFGHIJKLMNOPQRSTUVWXYZ0123456789_'')"

text \<open>
  The baseline tokenisation that \<open>super().parseline\<close> reaches: \<open>cmd.Cmd.parseline\<close>
  of the standard library, which \<open>pdb.Pdb\<close> does not override. A line starting with
  \<open>!\<close> is a shell command only when the class has \<open>do_shell\<close>.
\<close>

definition cmd_parseline ::
  "(string \<Rightarrow> bool) \<Rightarrow> string \<Rightarrow> string option \<times> string option \<times> string" where
  "cmd_parseline hasdo line0 =
     (let line = strip line0 in
      if line = [] then (None, None, line)
      else
        (case (if hd line = CHR ''?'' then Some (''help '' @ tl line)
               else if hd line = CHR ''!'' then
                 (if hasdo ''shell'' then Some (''shell '' @ tl line) else None)
               else Some line) of
           None \<Rightarrow> (None, None, line)
         | Some line1 \<Rightarrow>
             (Some (takeWhile identchar line1), Some (strip (dropWhile identchar line1)), line1)))"

text \<open>
  An argument is a string, or a string that carries the count of a command
  (\<open>ArgWithCount\<close>, a subclass of \<open>str\<close>).
\<close>

datatype argval = Str string | ArgWithCount string nat

fun arg_str :: "argval \<Rightarrow> string" where
  "arg_str (Str s) = s"
| "arg_str (ArgWithCount s n) = s"

definition digits_val :: "string \<Rightarrow> nat" where
  "digits_val ds = foldl (\<lambda>acc c. 10 * acc + digit_val c) 0 ds"

text \<open>
  \<open>re.match(r"(\d+)(\w+)", cmd)\<close> on a command token, which consists of
  identifier characters only: the digits are taken greedily, and the last one is given
  back when no word character follows them. The result is the count and the new command.
\<close>

definition count_prefix :: "string \<Rightarrow> (nat \<times> string) option" where
  "count_prefix cmd =
     (let ds = takeWhile is_digit cmd;
          w = takeWhile identchar (dropWhile is_digit cmd)
      in if ds = [] then None
         else if w \<noteq> [] then Some (digits_val ds, w)
         else if 2 \<le> length ds then Some (digits_val (butlast ds), [last ds])
         else None)"

definition endswith :: "string \<Rightarrow> string \<Rightarrow> bool" where
  "endswith s suf = suffix suf s"

definition startswith :: "string \<Rightarrow> string \<Rightarrow> bool" where
  "startswith s pre = prefix pre s"

text \<open>
  The "smart command mode" of \<open>parseline\<close> on what the baseline returned with a
  non-empty command.
\<close>

definition smart_command ::
  "pdb_state \<Rightarrow> string \<Rightarrow> string \<Rightarrow> string \<Rightarrow> string
     \<Rightarrow> string option \<times> argval option \<times> string" where
  "smart_command self line cmd0 arg0 newline =
     (if cmd0 \<in> set [''b'', ''f'', ''r'', ''u''] \<and> 1 < length newline \<and>
         (newline ! 1 = quote \<or> newline ! 1 = dquote)
      then (None, None, line)
      else
        let (cmd, arg) = (case count_prefix cmd0 of
                            Some (n, w) \<Rightarrow> (w, ArgWithCount arg0 n)
                          | None \<Rightarrow> (cmd0, Str arg0))
        in if has_do self cmd then
             (if ((case curframe self of
                     Some f \<Rightarrow> (f_globals f cmd \<noteq> None \<or> curframe_locals self cmd \<noteq> None) \<and>
                               cmd @ arg_str arg = line
                   | None \<Rightarrow> False)
                  \<or> startswith (arg_str arg) ''='')
              then (None, None, line)
              else if startswith (arg_str arg) ''('' \<and> cmd \<in> set [''list'', ''next'']
              then (None, None, line)
              else (Some cmd, Some arg, newline))
           else (Some cmd, Some arg, newline))"

text \<open>
  \<open>parseline(line)\<close>. \<open>in_complete\<close> says whether a function named
  \<open>complete\<close> is among the callers, which the method finds by walking
  \<open>sys._getframe()\<close>. With no current frame, \<open>self.curframe.f_globals\<close> raises
  AttributeError.
\<close>

definition parseline ::
  "pdb_state \<Rightarrow> string \<Rightarrow> bool \<Rightarrow> error + (string option \<times> argval option \<times> string)" where
  "parseline self line in_complete =
     (if executing_rc_lines self then
        (case cmd_parseline (has_do self) line of
           (cmd, arg, newline) \<Rightarrow> Inr (cmd, map_option Str arg, newline))
      else if startswith line ''!!'' then
        (case cmd_parseline (has_do self) (drop 2 line) of
           (cmd, arg, newline) \<Rightarrow> Inr (cmd, map_option Str arg, ''!!'' @ newline))
      else if endswith line ''?'' \<and> \<not> startswith line ''!'' then
        (let arg = takeWhile (\<lambda>c. c \<noteq> CHR ''?'') line in
         if endswith line ''??'' then Inr (Some ''inspect_with_source'', Some (Str arg), line)
         else if arg = [] then Inr (Some ''help'', Some (Str arg), line)
         else if has_do self arg then
           (case curframe self of
              None \<Rightarrow> Inl AttributeError
            | Some f \<Rightarrow>
                if f_globals f arg = None \<and> curframe_locals self arg = None
                then Inr (Some ''help'', Some (Str arg), line)
                else Inr (Some ''inspect'', Some (Str arg), line))
         else Inr (Some ''inspect'', Some (Str arg), line))
      else
        (case cmd_parseline (has_do self) line of
           (cmd0, arg0, newline) \<Rightarrow>
             let (cmd, arg, newline1) =
                   (case cmd0 of
                      None \<Rightarrow> (None, map_option Str arg0, newline)
                    | Some c \<Rightarrow>
                        if c = [] then (Some c, map_option Str arg0, newline)
                        else smart_command self line c (case arg0 of Some a \<Rightarrow> a | None \<Rightarrow> []) newline)
             in Inr (if cmd = None \<and> in_complete then Some [] else cmd, arg, newline1)))"


section \<open>Colour escape sequences\<close>

definition ESC :: char where
  "ESC = CHR 0x1B"

text \<open>
  The number of characters before the first \<open>m\<close>, if there is one.
\<close>

fun find_m :: "string \<Rightarrow> nat option" where
  "find_m [] = None"
| "find_m (c # cs) = (if c = CHR ''m'' then Some 0 else map_option Suc (find_m cs))"

text \<open>
  \<open>RE_COLOR_ESCAPES\<close> is \<open>(\x1b[^m]+m)+\<close>. One repetition of the group matched at
  the start of a string: ESC, at least one character other than \<open>m\<close>, then everything
  up to and including the first \<open>m\<close>. \<open>[^m]+\<close> cannot pass an \<open>m\<close>, so the
  group has at most one match at a position; the result is its length.
\<close>

fun unit_at :: "string \<Rightarrow> nat option" where
  "unit_at (c1 # c2 # rest) =
     (if c1 = ESC \<and> c2 \<noteq> CHR ''m'' then map_option (\<lambda>k. k + 3) (find_m rest) else None)"
| "unit_at _ = None"

text \<open>
  The whole pattern matched at the start of a string: the group repeated greedily.
  Nothing follows the group in the pattern, so the longest run is the match.
\<close>

fun match_at :: "string \<Rightarrow> nat option" where
  "match_at [] = None"
| "match_at (c # cs) =
     (case unit_at (c # cs) of
        None \<Rightarrow> None
      | Some l \<Rightarrow>
          (case match_at (drop (l - 1) cs) of
             None \<Rightarrow> Some l
           | Some l' \<Rightarrow> Some (l + l')))"

text \<open>
  \<open>RE_COLOR_ESCAPES.finditer(s)\<close>: the spans (start, end) of the successive
  non-overlapping matches, scanning from the left. The first argument is the position
  of the remaining text in the whole string.
\<close>

fun finditer_from :: "nat \<Rightarrow> string \<Rightarrow> (nat \<times> nat) list" where
  "finditer_from pos [] = []"
| "finditer_from pos (c # cs) =
     (case match_at (c # cs) of
        Some l \<Rightarrow> (pos, pos + l) # finditer_from (pos + l) (drop (l - 1) cs)
      | None \<Rightarrow> finditer_from (pos + 1) cs)"

definition finditer :: "string \<Rightarrow> (nat \<times> nat) list" where
  "finditer s = finditer_from 0 s"

text \<open>
  \<open>RE_COLOR_ESCAPES.sub("", s)\<close>: the text with every match removed. Its length is
  the visible length of \<open>s\<close>.
\<close>

fun strip_escapes :: "string \<Rightarrow> string" where
  "strip_escapes [] = []"
| "strip_escapes (c # cs) =
     (case match_at (c # cs) of
        Some l \<Rightarrow> strip_escapes (drop (l - 1) cs)
      | None \<Rightarrow> c # strip_escapes cs)"

section \<open>Truncation to a visible length\<close>

text \<open>
  Slices with non-negative bounds, \<open>s[a:b]\<close>, and a prefix slice \<open>s[:k]\<close> whose
  bound may be negative and then counts from the end.
\<close>

definition slice :: "string \<Rightarrow> nat \<Rightarrow> nat \<Rightarrow> string" where
  "slice s a b = take (b - a) (drop a s)"

definition py_prefix :: "string \<Rightarrow> int \<Rightarrow> string" where
  "py_prefix s k = (if 0 \<le> k then take (nat k) s else take (length s - nat (- k)) s)"

text \<open>
  The \<open>for m in matches: ... else: ...\<close> loop of \<open>_truncate_to_visible_length\<close>,
  with the variables \<open>ret\<close>, \<open>total_visible_len\<close>, \<open>pos\<close> and the \<open>m_end\<close>
  of the previous match. The \<open>else\<close> part runs when the matches are exhausted.
\<close>

fun truncate_loop ::
  "string \<Rightarrow> int \<Rightarrow> (nat \<times> nat) list \<Rightarrow> string \<Rightarrow> int \<Rightarrow> nat \<Rightarrow> nat \<Rightarrow> error + string" where
  "truncate_loop s maxlength [] ret total_visible_len pos m_end =
     (if maxlength - total_visible_len > 0
      then Inr (ret @ py_prefix (drop m_end s) (maxlength - total_visible_len))
      else Inl AssertionError)"
| "truncate_loop s maxlength ((m_start, m_end1) # ms) ret total_visible_len pos m_end =
     (let add_visible = slice s pos m_start;
          len_visible = int m_start - int pos;
          overflow = (len_visible + total_visible_len) - maxlength
      in if overflow \<ge> 0 then
           Inr ((if overflow = 0 then ret @ add_visible
                 else ret @ py_prefix add_visible (- overflow))
                @ slice s m_start m_end1)
         else truncate_loop s maxlength ms (ret @ add_visible @ slice s m_start m_end1)
                (total_visible_len + len_visible) m_end1 m_end1)"

text \<open>
  "Keep reset sequence (in last match)": when the text was shortened and the last match
  ends the string, the result is made to end with that match.
\<close>

definition keep_reset :: "string \<Rightarrow> (nat \<times> nat) list \<Rightarrow> string \<Rightarrow> string" where
  "keep_reset s matches ret =
     (if length ret \<noteq> length s then
        (case last matches of
           (last_m_start, last_m_end) \<Rightarrow>
             if last_m_end = length s then
               (let reset_seq = slice s last_m_start last_m_end
                in if \<not> endswith ret reset_seq then ret @ reset_seq else ret)
             else ret)
      else ret)"

definition truncate_to_visible_length :: "string \<Rightarrow> int \<Rightarrow> error + string" where
  "truncate_to_visible_length s maxlength =
     (let matches = finditer s in
      if matches = [] then Inr (py_prefix s maxlength)
      else
        (case truncate_loop s maxlength matches [] 0 0 0 of
           Inl e \<Rightarrow> Inl e
         | Inr ret0 \<Rightarrow>
             let ret = keep_reset s matches ret0
             in if int (length (strip_escapes ret)) \<le> maxlength then Inr ret
                else Inl AssertionError))"


section \<open>Completions\<close>

text \<open>
  \<open>RE_REMOVE_FANCYCOMPLETER_ESCAPE_SEQS\<close> is \<open>\x1b\[[\d;]+m\<close>: ESC, a bracket, one or
  more digits or semicolons, and \<open>m\<close>. The class does not contain \<open>m\<close>, so the
  run of digits and semicolons is taken whole. The result is the length of the match.
\<close>

definition digit_or_semicolon :: "char \<Rightarrow> bool" where
  "digit_or_semicolon c = (is_digit c \<or> c = CHR '';'')"

fun fancy_escape_at :: "string \<Rightarrow> nat option" where
  "fancy_escape_at (c1 # c2 # rest) =
     (if c1 = ESC \<and> c2 = CHR ''['' \<and> takeWhile digit_or_semicolon rest \<noteq> [] \<and>
         take 1 (dropWhile digit_or_semicolon rest) = ''m''
      then Some (length (takeWhile digit_or_semicolon rest) + 3)
      else None)"
| "fancy_escape_at _ = None"

fun remove_fancy_escapes :: "string \<Rightarrow> string" where
  "remove_fancy_escapes [] = []"
| "remove_fancy_escapes (c # cs) =
     (case fancy_escape_at (c # cs) of
        Some l \<Rightarrow> remove_fancy_escapes (drop (l - 1) cs)
      | None \<Rightarrow> c # remove_fancy_escapes cs)"

text \<open>
  \<open>_get_all_completions(complete, text)\<close>: the completer is asked with the indices
  0, 1, ... until it answers \<open>None\<close>. A completer that never does keeps the loop
  running: the result is then \<open>None\<close>.
\<close>

partial_function (option) get_all_completions ::
  "(nat \<Rightarrow> string option) \<Rightarrow> nat \<Rightarrow> string list \<Rightarrow> string list option" where
  "get_all_completions completer i r =
     (case completer i of
        None \<Rightarrow> Some r
      | Some c \<Rightarrow> get_all_completions completer (i + 1) (r @ [c]))"

text \<open>
  The two completers, outside this repository: \<open>fancycompleter.Completer(...).complete\<close>
  over the globals and locals of the current frame, and \<open>pdb.Pdb.complete\<close>.
\<close>

record completers =
  fancy_complete :: "string \<Rightarrow> nat \<Rightarrow> string option"
  pdb_complete :: "string \<Rightarrow> nat \<Rightarrow> string option"

text \<open>
  \<open>fancycompleter.commonprefix(names)\<close>, from the fancycompleter library: the longest
  common prefix of the names, folded over the list. \<open>_complete\<close> only tests whether
  it is empty.
\<close>

fun commonfunc :: "string \<Rightarrow> string \<Rightarrow> string" where
  "commonfunc (a # s1) (b # s2) = (if a = b then a # commonfunc s1 s2 else [])"
| "commonfunc _ _ = []"

definition commonprefix :: "string list \<Rightarrow> string" where
  "commonprefix names = (case names of [] \<Rightarrow> [] | n # ns \<Rightarrow> foldl commonfunc n ns)"

text \<open>
  \<open>".".join(text.split(".")[:-1]) + "."\<close>, for a text with a dot: the text up to and
  including its last dot.
\<close>

definition dotted_prefix :: "string \<Rightarrow> string" where
  "dotted_prefix text = rev (dropWhile (\<lambda>c. c \<noteq> CHR ''.'') (rev text))"

text \<open>
  The loop that appends the completions of pdb that are not among the clean completions.
  Without colours \<open>clean_fancy_completions\<close> is the very list that
  \<open>self._completions\<close> is, unless \<open>completions\<close> was rebound to a new empty list: the
  membership test then sees what the loop has appended (\<open>aliased\<close>).
\<close>

fun append_new :: "bool \<Rightarrow> string list \<Rightarrow> string list \<Rightarrow> string list \<Rightarrow> string list" where
  "append_new aliased clean acc [] = acc"
| "append_new aliased clean acc (x # xs) =
     (if x \<in> set (if aliased then acc else clean)
      then append_new aliased clean acc xs
      else append_new aliased clean (acc @ [x]) xs)"

text \<open>
  The part of \<open>_complete\<close> between the two exhaustive queries and the filter: from the
  completions of fancycompleter and all completions of pdb to \<open>self._completions\<close>.
\<close>

definition merge_completions ::
  "bool \<Rightarrow> string \<Rightarrow> string list \<Rightarrow> string list \<Rightarrow> string list" where
  "merge_completions colors text completions0 pdb_all =
     (let clean = (if colors then map remove_fancy_escapes completions0 else completions0);
          pdb_completions0 = filter (\<lambda>x. x \<notin> set clean) pdb_all;
          rebound = (completions0 = [[CHR 0x09]] \<and> pdb_completions0 \<noteq> []);
          completions1 = (if rebound then [] else completions0)
      in if pdb_completions0 \<noteq> [] then
           (let pdb_prefix = commonprefix pdb_completions0;
                pdb_completions1 =
                  (if CHR ''.'' \<in> set text \<and> pdb_prefix \<noteq> [] \<and> length pdb_completions0 > 1
                   then map (\<lambda>x. if startswith x (dotted_prefix text)
                                   then drop (length (dotted_prefix text)) x else x)
                          pdb_completions0
                   else pdb_completions0);
                pdb_completions2 =
                  (if length completions1 = 1 \<and> CHR ''.'' \<in> set (hd completions1) \<and>
                      pdb_prefix \<noteq> []
                   then [] else pdb_completions1)
            in append_new (\<not> colors \<and> \<not> rebound) clean completions1 pdb_completions2)
         else completions1)"

text \<open>
  The two filters of \<open>_filter_completions\<close>, chosen by the end of the text.
\<close>

definition underscore_filter :: "string \<Rightarrow> string list \<Rightarrow> string list" where
  "underscore_filter text xs =
     (if (if text = [] then [] else [last text]) \<noteq> ''_''
      then filter (\<lambda>x. take 1 (strip_escapes x) \<noteq> ''_'') xs
      else if drop (length text - 2) text \<noteq> ''__''
      then filter (\<lambda>x. take 2 (strip_escapes x) \<noteq> ''__'') xs
      else xs)"

definition filter_completions :: "pdb_state \<Rightarrow> string \<Rightarrow> pdb_state" where
  "filter_completions self text =
     (if fst (lastcompstate self) = Some text then
        (if snd (lastcompstate self) > 0 then self
         else self\<lparr>lastcompstate := (fst (lastcompstate self), snd (lastcompstate self) + 1),
                   completions := underscore_filter text (completions self)\<rparr>)
      else self\<lparr>lastcompstate := (Some text, 0),
                completions := underscore_filter text (completions self)\<rparr>)"

text \<open>
  \<open>_complete(text, state)\<close>: the state after the call and the candidate returned.
  For \<open>state = 0\<close> the list is computed and filtered; an index past the end of the
  list gives \<open>None\<close>.
\<close>

definition complete ::
  "completers \<Rightarrow> pdb_state \<Rightarrow> string \<Rightarrow> nat \<Rightarrow> (pdb_state \<times> string option) option" where
  "complete co self text state =
     (case (if state = 0 then
              (case get_all_completions (fancy_complete co text) 0 [] of
                 None \<Rightarrow> None
               | Some completions0 \<Rightarrow>
                   (case get_all_completions (pdb_complete co text) 0 [] of
                      None \<Rightarrow> None
                    | Some pdb_all \<Rightarrow>
                        Some (filter_completions
                                (self\<lparr>completions :=
                                   merge_completions (use_colors self) text completions0 pdb_all\<rparr>)
                                text)))
            else Some self) of
        None \<Rightarrow> None
      | Some self1 \<Rightarrow>
          Some (self1, if state < length (completions self1)
                       then Some (completions self1 ! state) else None))"

text \<open>
  One request for the candidates of a text (a press of the tab key): the call with
  \<open>state = 0\<close>, which computes the list.
\<close>

definition first_attempt :: "completers \<Rightarrow> string \<Rightarrow> pdb_state \<Rightarrow> pdb_state option" where
  "first_attempt co text self = map_option fst (complete co self text 0)"


section \<open>The line window of the long listing\<close>





text \<open>
  What the generator yields: a line number, or \<open>None\<close> for an ellipsis row, and the
  text. A generator that raises has yielded the rows before the exception.
\<close>

type_synonym row = "int option \<times> string"

text \<open>
  \<open>for i, line in enumerate(lines, start): yield lineno + i, line\<close>.
\<close>

fun numbered :: "int \<Rightarrow> nat \<Rightarrow> string list \<Rightarrow> row list" where
  "numbered lineno i [] = []"
| "numbered lineno i (line # rest) = (Some (lineno + int i), line) # numbered lineno (Suc i) rest"




definition ellipses :: "row list \<Rightarrow> row list" where
  "ellipses rows = filter (\<lambda>r. fst r = None) rows"



section \<open>Auxiliary notions for the proofs about escape sequences\<close>

text \<open>
  The substitution done one repetition of the group at a time; it removes the same
  characters as \<open>strip_escapes\<close>, since a match is a run of such repetitions.
\<close>

fun strip_units :: "string \<Rightarrow> string" where
  "strip_units [] = []"
| "strip_units (c # cs) =
     (case unit_at (c # cs) of
        Some l \<Rightarrow> strip_units (drop (l - 1) cs)
      | None \<Rightarrow> c # strip_units cs)"

text \<open>
  A text that the pattern matches as a whole.
\<close>

definition pure_esc :: "string \<Rightarrow> bool" where
  "pure_esc e = (match_at e = Some (length e))"

text \<open>
  Spans of matches in \<open>s\<close>, from \<open>pos\<close> on: ordered, inside the string, each of
  them a match as a whole.
\<close>

fun spans_ok :: "string \<Rightarrow> nat \<Rightarrow> (nat \<times> nat) list \<Rightarrow> bool" where
  "spans_ok s pos [] = True"
| "spans_ok s pos ((a, b) # ms) =
     (pos \<le> a \<and> a < b \<and> b \<le> length s \<and> pure_esc (slice s a b) \<and> spans_ok s b ms)"


section \<open>Example frames and states\<close>

text \<open>
  Three frames with distinct identities: \<open>frame_A\<close> sets \<open>__tracebackhide__\<close> in its
  locals, \<open>frame_B\<close> in its globals (its locals are not a mapping), \<open>frame_C\<close> sets
  nothing. \<open>frame_E\<close> sets every marker except the decorator's.
\<close>

definition frame_A :: frame where
  "frame_A = \<lparr>frame_id = 1, co_filename = ''a.py'', co_name = ''a'', co_names = [], co_varnames = [],
     co_consts = [OtherConst PyNone], f_globals = Map.empty,
     f_locals = Mapping [''__tracebackhide__'' \<mapsto> PyBool True], f_lineno = 10\<rparr>"

definition frame_B :: frame where
  "frame_B = \<lparr>frame_id = 2, co_filename = ''b.py'', co_name = ''b'', co_names = [], co_varnames = [],
     co_consts = [], f_globals = [''__tracebackhide__'' \<mapsto> PyInt 1],
     f_locals = NotMapping, f_lineno = 20\<rparr>"

definition frame_C :: frame where
  "frame_C = \<lparr>frame_id = 3, co_filename = ''c.py'', co_name = ''c'', co_names = [], co_varnames = [],
     co_consts = [], f_globals = Map.empty, f_locals = Mapping Map.empty, f_lineno = 30\<rparr>"

definition frame_E :: frame where
  "frame_E = \<lparr>frame_id = 4, co_filename = ''e.py'', co_name = ''e'', co_names = [], co_varnames = [],
     co_consts = [HIDE_FRAME, OtherConst PyNone],
     f_globals = [''__unittest'' \<mapsto> PyBool True, ''__tracebackhide__'' \<mapsto> PyBool True],
     f_locals = Mapping [''__tracebackhide__'' \<mapsto> PyBool True], f_lineno = 40\<rparr>"

definition pdb0 :: pdb_state where
  "pdb0 = \<lparr>enable_hidden_frames = True, via_set_trace_frame = None,
     show_hidden_frames = False, hidden_frames = [], fullstack = [], stack = [],
     curindex = 0, curframe = None, curframe_locals = Map.empty,
     executing_rc_lines = False,
     has_do = (\<lambda>name. name \<in> set [''b'', ''break'', ''c'', ''continue'', ''f'', ''frame'',
       ''r'', ''return'', ''u'', ''up'', ''d'', ''down'', ''n'', ''next'', ''l'', ''list'',
       ''p'', ''pp'', ''h'', ''help'', ''debug'', ''inspect'', ''inspect_with_source'']),
     tb_lineno = Map.empty, completions = [], lastcompstate = (None, 0), use_colors = False\<rparr>"

text \<open>
  A construction request: the class \<open>Pdb\<close>, a thread that holds no global instance
  and is not constructing one, a configuration hook that returns, and a standard
  library initialiser that raises TypeError on a keyword it does not know.
\<close>

definition cls_Pdb :: pyclass where
  "cls_Pdb = \<lparr>class_id = 1, qualname = ''Pdb''\<rparr>"

definition local0 :: thread_local where
  "local0 = \<lparr>pdbpp_in_init = False, GLOBAL_PDB = None, tracing = False\<rparr>"

definition co0 :: collaborators where
  "co0 = \<lparr>config_setup = None,
     stdlib_init = (\<lambda>kw. if list_all (\<lambda>k. k \<in> set [''completekey'', ''stdin'', ''stdout'',
                               ''skip'', ''nosigint'', ''readrc'']) (map fst kw)
                          then None else Some TypeError),
     default_pdb_kwargs = [], sys_stdout = PyStr ''<stdout>''\<rparr>"

text \<open>
  The word \<open>hello\<close> in red, followed by the reset sequence.
\<close>

definition red_hello :: string where
  "red_hello = ESC # ''[31mhello'' @ ESC # ''[0m''"




text \<open>
  A completer that serves a fixed list, and a pair of completers over the names
  \<open>a\<close>, \<open>_p\<close> and \<open>__d\<close>.
\<close>

definition list_completer :: "string list \<Rightarrow> nat \<Rightarrow> string option" where
  "list_completer xs i = (if i < length xs then Some (xs ! i) else None)"

definition names_completers :: completers where
  "names_completers = \<lparr>fancy_complete = (\<lambda>text. list_completer [''a'', ''_p'', ''__d'']),
                        pdb_complete = (\<lambda>text. list_completer [])\<rparr>"

section \<open>Properties of the visibility filter\<close>

lemma partition_stack_filter:
  "partition_stack self xs hidden newstack =
     (hidden @ filter (\<lambda>e. is_hidden self (fst e)) xs,
      newstack @ filter (\<lambda>e. \<not> is_hidden self (fst e)) xs)"
  by (induction xs arbitrary: hidden newstack) auto

lemma filter_both_empty:
  "filter P xs = [] \<Longrightarrow> filter (\<lambda>x. \<not> P x) xs = [] \<Longrightarrow> xs = []"
  by (induction xs) (auto split: if_splits)

lemma filter_neg_empty:
  "filter (\<lambda>x. \<not> P x) xs = [] \<Longrightarrow> filter P xs = xs"
  by (induction xs) (auto split: if_splits)

text \<open>
  C1. For every full stack with at least one frame, \<open>compute_stack\<close> returns
  (it does not raise) and the visible stack it returns is not empty. When every frame
  is hidden and hidden frames are not shown, the last hidden frame is the one moved back:
  the visible stack is that one entry and the hidden list is the rest.
\<close>

theorem compute_stack_nonempty:
  assumes "fullstack0 \<noteq> []"
  shows "\<exists>vis newidx self'.
           compute_stack self fullstack0 idx = Inr (vis, newidx, self') \<and> vis \<noteq> [] \<and>
           ((\<forall>e \<in> set fullstack0. is_hidden self (fst e)) \<and> \<not> show_hidden_frames self \<longrightarrow>
              vis = [last fullstack0] \<and> hidden_frames self' = butlast fullstack0)"
proof (cases "show_hidden_frames self")
  case True
  with assms show ?thesis by (simp add: compute_stack_def)
next
  case False
  let ?h = "filter (\<lambda>e. is_hidden self (fst e)) fullstack0"
  let ?v = "filter (\<lambda>e. \<not> is_hidden self (fst e)) fullstack0"
  show ?thesis
  proof (cases "?v = []")
    case True
    then have h: "?h = fullstack0" by (rule filter_neg_empty)
    with assms False True show ?thesis
      by (simp add: compute_stack_def partition_stack_filter)
  next
    case v: False
    then have "\<not> (\<forall>e \<in> set fullstack0. is_hidden self (fst e))"
      by (auto simp: filter_empty_conv)
    with assms False v show ?thesis
      by (simp add: compute_stack_def partition_stack_filter)
  qed
qed

theorem compute_stack_nonempty_witness:
  "[(frame_A, 10), (frame_B, 20)] \<noteq> [] \<and>
   (\<exists>vis newidx self'.
      compute_stack pdb0 [(frame_A, 10), (frame_B, 20)] None = Inr (vis, newidx, self') \<and>
      vis = [(frame_B, 20)] \<and> hidden_frames self' = [(frame_A, 10)])"
proof -
  have ne: "[(frame_A, 10::int), (frame_B, 20)] \<noteq> []" by simp
  have hid: "\<forall>e \<in> set [(frame_A, 10::int), (frame_B, 20)]. is_hidden pdb0 (fst e)"
    by (simp add: is_hidden_def decorated_def tracebackhide_def pdb0_def frame_A_def frame_B_def)
  have nsh: "\<not> show_hidden_frames pdb0" by (simp add: pdb0_def)
  from compute_stack_nonempty [OF ne, of pdb0 None] hid nsh show ?thesis
    by auto
qed

text \<open>
  C4. A frame that is the one \<open>set_trace\<close> was entered from
  (\<open>_via_set_trace_frame\<close>) is hidden exactly when hidden frames are enabled and it
  carries the decorator's marker: neither \<open>__unittest\<close> in its globals nor
  \<open>__tracebackhide__\<close> in its locals or globals hides it.
\<close>

theorem entry_frame_hidden_only_by_decorator:
  assumes "via_set_trace_frame self = Some (frame_id f)"
  shows "is_hidden self f \<longleftrightarrow> enable_hidden_frames self \<and> decorated f"
  using assms by (simp add: is_hidden_def)

theorem entry_frame_hidden_only_by_decorator_witness:
  "via_set_trace_frame (pdb0\<lparr>via_set_trace_frame := Some 4\<rparr>)
     = Some (frame_id (frame_E\<lparr>co_consts := []\<rparr>)) \<and>
   \<not> is_hidden (pdb0\<lparr>via_set_trace_frame := Some 4\<rparr>) (frame_E\<lparr>co_consts := []\<rparr>) \<and>
   is_hidden pdb0 (frame_E\<lparr>co_consts := []\<rparr>)"
proof -
  have v: "via_set_trace_frame (pdb0\<lparr>via_set_trace_frame := Some 4\<rparr>)
             = Some (frame_id (frame_E\<lparr>co_consts := []\<rparr>))"
    by (simp add: frame_E_def)
  have "\<not> is_hidden (pdb0\<lparr>via_set_trace_frame := Some 4\<rparr>) (frame_E\<lparr>co_consts := []\<rparr>)"
    using entry_frame_hidden_only_by_decorator [OF v] by (simp add: decorated_def)
  moreover have "is_hidden pdb0 (frame_E\<lparr>co_consts := []\<rparr>)"
    by (simp add: is_hidden_def decorated_def pdb0_def frame_E_def)
  ultimately show ?thesis using v by simp
qed

text \<open>
  C3, as stated, fails. For the stack \<open>[A, B, C]\<close> with A and B hidden, C visible and
  B the current frame (index 1), the visible list is \<open>[C]\<close>, not \<open>[B, C]\<close>: A and B
  are both in the hidden list, the index returned is \<open>1 - 2 = -1\<close>, and
  \<open>refresh_stack\<close> selects C.
\<close>

theorem hidden_current_frame_counterexample:
  "shown_ids (get_stack pdb0 [(frame_A, 10), (frame_B, 20), (frame_C, 30)] 1)
     = Inr ([3], - 1, [1, 2]) \<and>
   map_option frame_id
     (curframe (projr (refresh_stack
        (pdb0\<lparr>fullstack := [(frame_A, 10), (frame_B, 20), (frame_C, 30)],
               curframe := Some frame_B\<rparr>)))) = Some 3"
  by (simp add: shown_ids_def get_stack_def refresh_stack_def compute_stack_def is_hidden_def
      decorated_def tracebackhide_def pdb0_def frame_A_def frame_B_def frame_C_def)

lemma is_hidden_hidden_frames_update [simp]:
  "is_hidden (self\<lparr>hidden_frames := h\<rparr>) f = is_hidden self f"
  by (simp add: is_hidden_def)

text \<open>
  C3, amended. For the stack \<open>[A, B, C]\<close> where A and B are hidden and C is not, with
  hidden frames not shown: the visible list is \<open>[C]\<close> and the hidden list is
  \<open>[A, B]\<close> (a hidden frame is moved back only when no frame is visible); with B the
  current frame, \<open>refresh_stack\<close> does not find B in the visible list and selects the
  last visible entry, C, at index 0.
\<close>

theorem hidden_current_frame_falls_back:
  assumes "is_hidden self A" and "is_hidden self B" and "\<not> is_hidden self C"
    and "\<not> show_hidden_frames self"
    and "frame_id C \<noteq> frame_id B"
    and "fullstack self = [(A, a), (B, b), (C, c)]"
    and "curframe self = Some B"
  shows "(\<exists>newidx self'. compute_stack self [(A, a), (B, b), (C, c)] (Some 1)
            = Inr ([(C, c)], newidx, self') \<and> hidden_frames self' = [(A, a), (B, b)]) \<and>
         (\<exists>self'. refresh_stack self = Inr self' \<and> stack self' = [(C, c)] \<and>
            hidden_frames self' = [(A, a), (B, b)] \<and>
            curindex self' = 0 \<and> curframe self' = Some C)"
  using assms by (simp add: compute_stack_def refresh_stack_def)

theorem hidden_current_frame_falls_back_witness:
  "(\<exists>newidx self'.
      compute_stack (pdb0\<lparr>fullstack := [(frame_A, 10), (frame_B, 20), (frame_C, 30)],
                          curframe := Some frame_B\<rparr>)
        [(frame_A, 10), (frame_B, 20), (frame_C, 30)] (Some 1)
      = Inr ([(frame_C, 30)], newidx, self') \<and>
      hidden_frames self' = [(frame_A, 10), (frame_B, 20)]) \<and>
   (\<exists>self'. refresh_stack (pdb0\<lparr>fullstack := [(frame_A, 10), (frame_B, 20), (frame_C, 30)],
                                  curframe := Some frame_B\<rparr>) = Inr self' \<and>
      stack self' = [(frame_C, 30)] \<and> curindex self' = 0 \<and> curframe self' = Some frame_C)"
proof -
  let ?s = "pdb0\<lparr>fullstack := [(frame_A, 10), (frame_B, 20), (frame_C, 30)],
                  curframe := Some frame_B\<rparr>"
  have h: "is_hidden ?s frame_A" "is_hidden ?s frame_B" "\<not> is_hidden ?s frame_C"
    "\<not> show_hidden_frames ?s" "frame_id frame_C \<noteq> frame_id frame_B"
    "fullstack ?s = [(frame_A, 10), (frame_B, 20), (frame_C, 30)]"
    "curframe ?s = Some frame_B"
    by (simp_all add: is_hidden_def decorated_def tracebackhide_def pdb0_def
        frame_A_def frame_B_def frame_C_def)
  from hidden_current_frame_falls_back [OF h] show ?thesis
    by blast
qed

section \<open>Properties of the session construction\<close>

lemma construct_new_returns_clears_guard:
  "construct_new co environ local1 cls cfst u kw = (local', Inr r) \<Longrightarrow> \<not> pdbpp_in_init local'"
  by (auto simp: construct_new_def Let_def split: option.splits sum.splits if_splits prod.splits)

lemma pdbmeta_call_returns_clears_guard:
  "pdbmeta_call co environ local cls frames kw = (local', Inr r) \<Longrightarrow> \<not> pdbpp_in_init local'"
  by (auto simp: pdbmeta_call_def Let_def dest: construct_new_returns_clears_guard
      split: option.splits sum.splits if_splits prod.splits)

text \<open>
  C2 does not hold of the code. With \<open>PDBPP_COLORS=yes\<close> in the environment,
  \<open>int(os.environ["PDBPP_COLORS"])\<close> in \<open>Pdb.__init__\<close> raises ValueError; the
  exception leaves \<open>__call__\<close> with the recursion guard still set. The next
  construction on the thread, in a sound environment, then takes the branch for recursive
  calls and returns a plain \<open>pdb.Pdb\<close>. The same happens when the standard library's
  initialiser rejects a keyword.
\<close>

theorem guard_stays_set_when_init_raises:
  "pdbmeta_call co0 [(''PDBPP_COLORS'', ''yes'')] local0 cls_Pdb [] []
     = (local0\<lparr>pdbpp_in_init := True\<rparr>, Inl ValueError) \<and>
   pdbmeta_call co0 [] local0 cls_Pdb [] [(''foo'', PyInt 1)]
     = (local0\<lparr>pdbpp_in_init := True\<rparr>, Inl TypeError) \<and>
   pdbmeta_call co0 [] (local0\<lparr>pdbpp_in_init := True\<rparr>) cls_Pdb [] []
     = (local0, Inr (OrigPdb []))"
  by (simp add: pdbmeta_call_def construct_new_def pdb_init_def pop_def environ_get_def
      py_int_def strip_def is_space_def parse_digits.simps is_digit_def co0_def local0_def
      cls_Pdb_def new_instance_def)

section \<open>Properties of the command-line parser\<close>

lemma dropWhile_snoc: "\<not> P c \<Longrightarrow> dropWhile P (ys @ [c]) = dropWhile P ys @ [c]"
  by (induction ys) auto

lemma strip_Cons: "\<not> is_space c \<Longrightarrow> strip (c # xs) = c # rev (dropWhile is_space (rev xs))"
  by (simp add: strip_def dropWhile_snoc)


lemma not_bangbang:
  assumes "strip line = c # rest" and "c \<noteq> CHR ''!''"
  shows "\<not> startswith line ''!!''"
proof
  assume "startswith line ''!!''"
  then obtain l where "line = CHR ''!'' # l" by (auto simp: startswith_def prefix_def)
  then have "strip line = CHR ''!'' # rev (dropWhile is_space (rev l))"
    by (simp add: strip_Cons is_space_def)
  with assms show False by simp
qed





lemmas parse_defs = parseline_def cmd_parseline_def smart_command_def count_prefix_def strip_def
  is_space_def identchar_def is_digit_def startswith_def endswith_def quote_def dquote_def
  digits_val_def digit_val_def suffix_to_prefix Let_def

lemma pdb0_fields [simp]:
  "enable_hidden_frames pdb0" "via_set_trace_frame pdb0 = None" "\<not> show_hidden_frames pdb0"
  "hidden_frames pdb0 = []" "fullstack pdb0 = []" "stack pdb0 = []" "curindex pdb0 = 0"
  "curframe pdb0 = None" "curframe_locals pdb0 = Map.empty" "\<not> executing_rc_lines pdb0"
  "tb_lineno pdb0 = Map.empty" "completions pdb0 = []" "lastcompstate pdb0 = (None, 0)"
  "\<not> use_colors pdb0"
  "has_do pdb0 name = (name \<in> set [''b'', ''break'', ''c'', ''continue'', ''f'', ''frame'',
       ''r'', ''return'', ''u'', ''up'', ''d'', ''down'', ''n'', ''next'', ''l'', ''list'',
       ''p'', ''pp'', ''h'', ''help'', ''debug'', ''inspect'', ''inspect_with_source''])"
  by (simp_all add: pdb0_def)

text \<open>
  C6, as stated, fails: the line \<open>b 'x'\<close> has a space after \<open>b\<close>, so the second
  character of the line is not a quote, and the line is the command \<open>b\<close> with the
  argument \<open>'x'\<close>.
\<close>

theorem alias_space_quote_counterexample:
  "parseline pdb0 (''b '' @ [quote] @ ''x'' @ [quote]) False
     = Inr (Some ''b'', Some (Str ([quote] @ ''x'' @ [quote])), ''b '' @ [quote] @ ''x'' @ [quote])"
  by (simp add: parse_defs)

text \<open>
  C6, amended. Outside the replay of rc lines, a line that does not end in \<open>?\<close> and
  whose stripped text starts with one of the letters b, f, r, u followed immediately by a
  quote character (\<open>'\<close> or \<open>"\<close>) is an expression: no command (the empty string
  when called for a completion), no argument, and the line as it was given. So
  \<open>b'x'\<close> is an expression, while \<open>b 'x'\<close> with a space is the command \<open>b\<close>.
\<close>

theorem alias_quote_is_expression:
  assumes rc: "\<not> executing_rc_lines self"
    and c: "c \<in> set ''bfru''" and q: "q = quote \<or> q = dquote"
    and s: "strip line = c # q # rest"
    and e: "\<not> endswith line ''?''"
  shows "parseline self line ic = Inr (if ic then Some [] else None, None, line)"
proof -
  have c1: "c \<noteq> CHR ''?''" "c \<noteq> CHR ''!''" using c by auto
  have idc: "identchar c" using c by (auto simp: identchar_def)
  have idq: "\<not> identchar q" using q by (auto simp: identchar_def quote_def dquote_def)
  have al: "[c] \<in> set [''b'', ''f'', ''r'', ''u'']" using c by auto
  have nb: "\<not> startswith line ''!!''"
    using s c1(2) by (rule not_bangbang)
  have tw: "takeWhile identchar (c # q # rest) = [c]"
    by (simp add: idc idq)
  have cp: "cmd_parseline (has_do self) line
              = (Some [c], Some (strip (dropWhile identchar (c # q # rest))), c # q # rest)"
    unfolding cmd_parseline_def Let_def s using c1 tw by simp
  have sm: "smart_command self line [c] a (c # q # rest) = (None, None, line)" for a
    unfolding smart_command_def using al q by simp
  show ?thesis
    using rc nb e by (simp add: parseline_def cp sm)
qed

theorem alias_quote_is_expression_witness:
  "parseline pdb0 (''b'' @ [quote] @ ''x'' @ [quote]) False
     = Inr (None, None, ''b'' @ [quote] @ ''x'' @ [quote]) \<and>
   parseline pdb0 (''  r'' @ [dquote] @ ''x'' @ [dquote] @ '' '') True
     = Inr (Some [], None, ''  r'' @ [dquote] @ ''x'' @ [dquote] @ '' '')"
  using alias_quote_is_expression [of pdb0 "CHR ''b''" quote "''b'' @ [quote] @ ''x'' @ [quote]"
      "''x'' @ [quote]" False]
    alias_quote_is_expression [of pdb0 "CHR ''r''" dquote
      "''  r'' @ [dquote] @ ''x'' @ [dquote] @ '' ''" "''x'' @ [dquote]" True]
  by (simp add: strip_def is_space_def endswith_def suffix_to_prefix quote_def dquote_def)

text \<open>
  C7, as stated, fails while rc lines are replayed: \<open>parseline\<close> then returns
  what the baseline parser returns, and the line \<open>r\<close> is the command \<open>r\<close> although
  a variable \<open>r\<close> exists in the current locals.
\<close>

theorem rc_replay_keeps_command_counterexample:
  "parseline (pdb0\<lparr>executing_rc_lines := True, curframe := Some frame_C,
                    curframe_locals := [''r'' \<mapsto> PyInt 1]\<rparr>) ''r'' False
     = Inr (Some ''r'', Some (Str []), ''r'')"
  by (simp add: parse_defs)



text \<open>
  C8, as stated, fails while rc lines are replayed: the baseline parser keeps the token
  \<open>10pp\<close> as the command, with the plain argument \<open>x\<close> and no count. And in the
  interactive parser a later rule can undo the split: \<open>10pp =3\<close> is an expression,
  because \<open>pp\<close> is a command and the argument starts with \<open>=\<close>.
\<close>

theorem rc_replay_keeps_count_counterexample:
  "parseline (pdb0\<lparr>executing_rc_lines := True\<rparr>) ''10pp x'' False
     = Inr (Some ''10pp'', Some (Str ''x''), ''10pp x'') \<and>
   parseline pdb0 ''10pp =3'' False = Inr (None, None, ''10pp =3'')"
  by (simp add: parse_defs)



section \<open>Properties of the truncation to a visible length\<close>

lemma find_m_le: "find_m s = Some k \<Longrightarrow> k < length s \<and> s ! k = CHR ''m'' \<and> CHR ''m'' \<notin> set (take k s)"
  by (induction s arbitrary: k) (auto split: if_splits)

lemma find_m_append1: "find_m xs = Some k \<Longrightarrow> find_m (xs @ ys) = Some k"
  by (induction xs arbitrary: k) (auto split: if_splits)

lemma find_m_append2:
  "find_m xs = None \<Longrightarrow> find_m (xs @ ys) = (case find_m ys of None \<Rightarrow> None | Some k \<Rightarrow> Some (length xs + k))"
  by (induction xs) (auto split: if_splits option.splits)

lemma unit_at_bounds: "unit_at s = Some l \<Longrightarrow> 3 \<le> l \<and> l \<le> length s"
  by (cases s rule: unit_at.cases) (auto split: if_splits dest: find_m_le)

lemma unit_at_append1: "unit_at xs = Some l \<Longrightarrow> unit_at (xs @ ys) = Some l"
  by (cases xs rule: unit_at.cases) (auto split: if_splits simp: find_m_append1)

lemma string_shape [case_names two empty single]:
  fixes xs :: string
  obtains c1 c2 rest where "xs = c1 # c2 # rest" | "xs = []" | v where "xs = [v]"
  by (cases xs rule: unit_at.cases) auto

lemma unit_at_append2:
  assumes "unit_at xs = None" and "unit_at (xs @ ys) = Some l"
  shows "length xs < l"
proof (cases xs rule: string_shape)
  case (two c1 c2 rest)
  with assms show ?thesis
    by (auto split: if_splits option.splits simp: find_m_append2)
next
  case empty
  with assms unit_at_bounds [of ys l] show ?thesis by simp
next
  case (single v)
  with assms unit_at_bounds [of "v # ys" l] show ?thesis by simp
qed

lemma unit_whole:
  assumes "unit_at e = Some (length e)"
  shows "\<exists>c2 rest. e = ESC # c2 # rest \<and> c2 \<noteq> CHR ''m'' \<and> find_m rest = Some (length rest - 1) \<and> rest \<noteq> []"
proof (cases e rule: unit_at.cases)
  case (1 c1 c2 rest)
  with assms obtain k where k: "c1 = ESC" "c2 \<noteq> CHR ''m''" "find_m rest = Some k" "k + 3 = length rest + 2"
    by (auto split: if_splits)
  from k(3) have "k < length rest" by (auto dest: find_m_le)
  with k 1 show ?thesis by auto
qed (use assms in auto)

lemma ESC_not_m [simp]: "ESC \<noteq> CHR ''m''"
  by (simp add: ESC_def)

lemma unit_at_append_unit:
  assumes "unit_at xs = None" and "unit_at (xs @ e) = Some l" and "unit_at e = Some (length e)"
  shows "l = length xs + length e"
proof -
  obtain c2 rest where e: "e = ESC # c2 # rest" "c2 \<noteq> CHR ''m''"
    "find_m rest = Some (length rest - 1)" "rest \<noteq> []"
    using unit_whole [OF assms(3)] by blast
  have fe: "find_m e = Some (length e - 1)" "find_m (tl e) = Some (length e - 2)"
    using e by auto
  show ?thesis
  proof (cases xs rule: string_shape)
    case (two c1 c2' r)
    with assms(2) have c: "c1 = ESC" "c2' \<noteq> CHR ''m''" and f: "find_m (r @ e) = Some (l - 3)" "3 \<le> l"
      by (auto split: if_splits)
    from assms(1) two c have "find_m r = None" by (auto split: if_splits)
    with f fe e two show ?thesis by (auto simp: find_m_append2)
  next
    case empty
    with assms show ?thesis by simp
  next
    case (single v)
    with assms(2) e fe show ?thesis by (auto split: if_splits)
  qed
qed

lemma match_at_None: "match_at s = None \<longleftrightarrow> unit_at s = None"
  by (cases s) (auto split: option.splits)

lemma match_at_bounds: "match_at s = Some l \<Longrightarrow> 3 \<le> l \<and> l \<le> length s"
proof (induction s arbitrary: l rule: match_at.induct)
  case 1
  then show ?case by simp
next
  case (2 c cs)
  then obtain l1 where l1: "unit_at (c # cs) = Some l1" by (auto split: option.splits)
  then have b: "3 \<le> l1" "l1 \<le> length (c # cs)" using unit_at_bounds by blast+
  show ?case
  proof (cases "match_at (drop (l1 - 1) cs)")
    case None
    with 2 l1 b show ?thesis by simp
  next
    case (Some l2)
    with 2(1) [OF l1 Some] have "3 \<le> l2" "l2 \<le> length (drop (l1 - 1) cs)" by auto
    with 2(2) l1 Some b show ?thesis by auto
  qed
qed

lemma drop_Cons_pos: "0 < l \<Longrightarrow> drop l (c # cs) = drop (l - 1) cs"
  by (cases l) auto

lemma strip_escapes_match: "match_at t = Some l \<Longrightarrow> strip_escapes t = strip_escapes (drop l t)"
  using match_at_bounds [of t l] by (cases t) (auto simp: drop_Cons_pos)

lemma strip_units_unit: "unit_at t = Some l \<Longrightarrow> strip_units t = strip_units (drop l t)"
  using unit_at_bounds [of t l] by (cases t) (auto simp: drop_Cons_pos)

lemma match_at_unfold:
  "unit_at t = Some l1 \<Longrightarrow>
     match_at t = (case match_at (drop l1 t) of None \<Rightarrow> Some l1 | Some l2 \<Rightarrow> Some (l1 + l2))"
  using unit_at_bounds [of t l1] by (cases t) (auto simp: drop_Cons_pos)

lemma strip_escapes_units: "strip_escapes s = strip_units s"
proof (induction s rule: length_induct)
  case (1 s)
  show ?case
  proof (cases s)
    case Nil
    then show ?thesis by simp
  next
    case (Cons c cs)
    show ?thesis
    proof (cases "unit_at s")
      case None
      then have "match_at s = None" by (simp add: match_at_None)
      with None Cons 1 show ?thesis by simp
    next
      case (Some l1)
      then have b: "3 \<le> l1" "l1 \<le> length s" using unit_at_bounds by blast+
      let ?t = "drop l1 s"
      have sh: "length ?t < length s" using b by simp
      have u: "strip_units s = strip_escapes ?t"
        using strip_units_unit [OF Some] 1 sh by simp
      show ?thesis
      proof (cases "match_at ?t")
        case None
        then have "match_at s = Some l1" using match_at_unfold [OF Some] by simp
        then show ?thesis using u strip_escapes_match by simp
      next
        case (Some l2)
        then have "match_at s = Some (l1 + l2)" using match_at_unfold [OF \<open>unit_at s = Some l1\<close>] by simp
        then have "strip_escapes s = strip_escapes (drop (l1 + l2) s)" by (rule strip_escapes_match)
        also have "\<dots> = strip_escapes (drop l2 ?t)" by (simp add: add.commute)
        also have "\<dots> = strip_escapes ?t" using strip_escapes_match [OF Some] by simp
        finally show ?thesis using u by simp
      qed
    qed
  qed
qed

lemma length_strip_units_le: "length (strip_units s) \<le> length s"
proof (induction s rule: strip_units.induct)
  case 1
  then show ?case by simp
next
  case (2 c cs)
  then show ?case
    by (auto split: option.splits intro: le_trans [OF _ diff_le_self] le_SucI)
qed

lemma strip_units_add_unit:
  assumes "unit_at e = Some (length e)"
  shows "length (strip_units (xs @ e)) \<le> length (strip_units xs)"
proof (induction xs rule: length_induct)
  case (1 xs)
  show ?case
  proof (cases xs)
    case Nil
    then show ?thesis using strip_units_unit [OF assms] by simp
  next
    case (Cons c cs)
    show ?thesis
    proof (cases "unit_at xs")
      case (Some l)
      then have b: "3 \<le> l" "l \<le> length xs" using unit_at_bounds by blast+
      have "strip_units (xs @ e) = strip_units (drop l xs @ e)"
        using strip_units_unit [OF unit_at_append1 [OF Some, of e]] b by simp
      moreover have "length (strip_units (drop l xs @ e)) \<le> length (strip_units (drop l xs))"
        using 1 b by simp
      ultimately show ?thesis using strip_units_unit [OF Some] by simp
    next
      case None
      show ?thesis
      proof (cases "unit_at (xs @ e)")
        case n: None
        with None Cons 1 show ?thesis by simp
      next
        case (Some l)
        then have "l = length xs + length e" using unit_at_append_unit [OF None _ assms] by simp
        then show ?thesis using strip_units_unit [OF Some] by simp
      qed
    qed
  qed
qed

lemma strip_units_append_le:
  "length (strip_units (xs @ ys)) \<le> length (strip_units xs) + length ys"
proof (induction xs rule: length_induct)
  case (1 xs)
  show ?case
  proof (cases xs)
    case Nil
    then show ?thesis by (simp add: length_strip_units_le)
  next
    case (Cons c cs)
    show ?thesis
    proof (cases "unit_at xs")
      case (Some l)
      then have b: "3 \<le> l" "l \<le> length xs" using unit_at_bounds by blast+
      have "strip_units (xs @ ys) = strip_units (drop l xs @ ys)"
        using strip_units_unit [OF unit_at_append1 [OF Some, of ys]] b by simp
      moreover have "length (strip_units (drop l xs @ ys)) \<le> length (strip_units (drop l xs)) + length ys"
        using 1 b by simp
      ultimately show ?thesis using strip_units_unit [OF Some] by simp
    next
      case None
      show ?thesis
      proof (cases "unit_at (xs @ ys)")
        case n: None
        with None Cons 1 show ?thesis by simp
      next
        case (Some l)
        then have "length xs < l" using unit_at_append2 [OF None] by simp
        then have "strip_units (xs @ ys) = strip_units (drop (l - length xs) ys)"
          using strip_units_unit [OF Some] by simp
        moreover have "length (strip_units (drop (l - length xs) ys)) \<le> length ys"
          using length_strip_units_le [of "drop (l - length xs) ys"] by simp
        ultimately show ?thesis by simp
      qed
    qed
  qed
qed

lemma find_m_take: "find_m xs = Some k \<Longrightarrow> find_m (take (Suc k) xs) = Some k"
  by (induction xs arbitrary: k) (auto split: if_splits)

lemma unit_at_take: "unit_at s = Some l \<Longrightarrow> unit_at (take l s) = Some l"
  by (cases s rule: unit_at.cases) (auto split: if_splits simp: find_m_take eval_nat_numeral)

lemma strip_units_add_pure:
  "pure_esc e \<Longrightarrow> length (strip_units (xs @ e)) \<le> length (strip_units xs)"
proof (induction e arbitrary: xs rule: length_induct)
  case (1 e)
  from 1(2) have m: "match_at e = Some (length e)" by (simp add: pure_esc_def)
  then obtain l1 where l1: "unit_at e = Some l1"
    using match_at_None [of e] by (cases "unit_at e") auto
  then have b: "3 \<le> l1" "l1 \<le> length e" using unit_at_bounds by blast+
  show ?case
  proof (cases "match_at (drop l1 e)")
    case None
    with m match_at_unfold [OF l1] have "l1 = length e" by simp
    with l1 show ?thesis using strip_units_add_unit by simp
  next
    case (Some l2)
    with m match_at_unfold [OF l1] have "l1 + l2 = length e" by simp
    with Some b have p: "pure_esc (drop l1 e)" by (simp add: pure_esc_def)
    have u: "unit_at (take l1 e) = Some (length (take l1 e))"
      using unit_at_take [OF l1] b by simp
    have sh: "length (drop l1 e) < length e" using b by simp
    have "length (strip_units ((xs @ take l1 e) @ drop l1 e)) \<le> length (strip_units (xs @ take l1 e))"
      using 1(1) [rule_format, OF sh p, of "xs @ take l1 e"] .
    also have "\<dots> \<le> length (strip_units xs)" using strip_units_add_unit [OF u] .
    finally show ?thesis by simp
  qed
qed

lemma match_at_take: "match_at t = Some l \<Longrightarrow> match_at (take l t) = Some l"
proof (induction t arbitrary: l rule: length_induct)
  case (1 t)
  then obtain l1 where l1: "unit_at t = Some l1"
    using match_at_None [of t] by (cases "unit_at t") auto
  then have b: "3 \<le> l1" "l1 \<le> length t" using unit_at_bounds by blast+
  show ?case
  proof (cases "match_at (drop l1 t)")
    case None
    with 1(2) match_at_unfold [OF l1] have l: "l = l1" by simp
    have "match_at (take l1 t) = Some l1"
      using match_at_unfold [OF unit_at_take [OF l1]] b by simp
    with l show ?thesis by simp
  next
    case (Some l2)
    with 1(2) match_at_unfold [OF l1] have l: "l = l1 + l2" by simp
    have "take l t = take l1 t @ take l2 (drop l1 t)" using l by (simp add: take_add)
    then have u: "unit_at (take l t) = Some l1"
      using unit_at_append1 [OF unit_at_take [OF l1]] by simp
    have d: "drop l1 (take l t) = take l2 (drop l1 t)" using l b by (simp add: drop_take)
    have "match_at (take l2 (drop l1 t)) = Some l2" using 1(1) Some b by simp
    with match_at_unfold [OF u] d l show ?thesis by simp
  qed
qed

lemma spans_ok_weaken: "spans_ok s pos ms \<Longrightarrow> pos' \<le> pos \<Longrightarrow> spans_ok s pos' ms"
  by (cases ms) auto

lemma take_slice: "a \<le> b \<Longrightarrow> take a s @ slice s a b = take b s"
proof -
  assume "a \<le> b"
  have "take (a + (b - a)) s = take a s @ take (b - a) (drop a s)" by (rule take_add)
  with \<open>a \<le> b\<close> show ?thesis by (simp add: slice_def)
qed

lemma finditer_from_ok:
  "t = drop pos s \<Longrightarrow> pos \<le> length s \<Longrightarrow> spans_ok s pos (finditer_from pos t)"
proof (induction pos t rule: finditer_from.induct)
  case (1 pos)
  then show ?case by simp
next
  case (2 pos c cs)
  have dp: "drop pos s = c # cs" using 2(3) by simp
  show ?case
  proof (cases "match_at (c # cs)")
    case None
    have "drop (Suc pos) s = tl (drop pos s)" by (simp add: drop_Suc drop_tl)
    then have a: "cs = drop (pos + 1) s" using dp by simp
    have "pos < length s" using dp by (cases "pos < length s") auto
    then have b: "pos + 1 \<le> length s" by simp
    have "spans_ok s (pos + 1) (finditer_from (pos + 1) cs)" using 2(1) [OF None a b] .
    then show ?thesis using None by (simp add: spans_ok_weaken)
  next
    case (Some l)
    then have b: "3 \<le> l" "l \<le> length (c # cs)" using match_at_bounds by blast+
    have len: "length (c # cs) = length s - pos" using dp [symmetric] by simp
    have "drop (pos + l) s = drop l (drop pos s)" by (simp add: add.commute)
    also have "\<dots> = drop (l - 1) cs" using dp b by (simp add: drop_Cons_pos)
    finally have d: "drop (l - 1) cs = drop (pos + l) s" by simp
    have le: "pos + l \<le> length s" using b len 2(4) by simp
    have ih: "spans_ok s (pos + l) (finditer_from (pos + l) (drop (l - 1) cs))"
      using 2(2) [OF Some d le] .
    have "slice s pos (pos + l) = take l (c # cs)" using dp by (simp add: slice_def)
    then have "pure_esc (slice s pos (pos + l))"
      using match_at_take [OF Some] b by (simp add: pure_esc_def)
    with ih Some b le show ?thesis by simp
  qed
qed

lemma take_full: "length (take k s) = length s \<Longrightarrow> take k s = s"
  by (cases "k < length s") auto

lemma py_prefix_le: "length (py_prefix x k) \<le> length x"
  by (simp add: py_prefix_def)

lemma truncate_loop_ok:
  assumes "spans_ok s pos ms" and "pos \<le> length s" and "ret = take pos s" and "m_end = pos"
    and "int (length (strip_units ret)) \<le> tvl" and "0 \<le> tvl" and "tvl \<le> maxlength"
    and "ms = [] \<longrightarrow> tvl < maxlength"
  shows "\<exists>r. truncate_loop s maxlength ms ret tvl pos m_end = Inr r \<and>
              int (length (strip_units r)) \<le> maxlength \<and> (length r = length s \<longrightarrow> r = s)"
  using assms
proof (induction ms arbitrary: pos ret tvl m_end)
  case Nil
  let ?n = "nat (maxlength - tvl)"
  let ?r = "ret @ take ?n (drop pos s)"
  have r: "truncate_loop s maxlength [] ret tvl pos m_end = Inr ?r"
    using Nil by (simp add: py_prefix_def)
  have "length (take ?n (drop pos s)) \<le> ?n" by (simp only: length_take min.cobounded2)
  then have l1: "int (length (take ?n (drop pos s))) \<le> int ?n" by (simp only: of_nat_le_iff)
  have l2: "int ?n = maxlength - tvl" using Nil(7) by simp
  have "int (length (strip_units ?r)) \<le> int (length (strip_units ret)) + int (length (take ?n (drop pos s)))"
    using strip_units_append_le [of ret "take ?n (drop pos s)"] by linarith
  with l1 l2 Nil(5) have v: "int (length (strip_units ?r)) \<le> maxlength" by linarith
  have e: "?r = take (pos + ?n) s" using Nil(3) by (simp add: take_add)
  have "length ?r = length s \<longrightarrow> ?r = s" unfolding e using take_full by blast
  with r v show ?case by blast
next
  case (Cons m ms)
  obtain a b where m: "m = (a, b)" by (cases m)
  with Cons(2) have ok: "pos \<le> a" "a < b" "b \<le> length s" "pure_esc (slice s a b)" "spans_ok s b ms"
    by simp_all
  let ?add = "slice s pos a"
  let ?E = "slice s a b"
  have la: "length ?add = a - pos" using ok by (simp add: slice_def)
  have lE: "length ?E = b - a" using ok by (simp add: slice_def)
  let ?ov = "int a - int pos + tvl - maxlength"
  have ta: "take pos s @ ?add = take a s" using ok(1) by (rule take_slice)
  have t2: "take a s @ ?E = take b s" using ok(2) by (intro take_slice) simp
  have tb: "take pos s @ ?add @ ?E = take b s"
    unfolding append_assoc [symmetric] ta by (fact t2)
  show ?case
  proof (cases "?ov \<ge> 0")
    case True
    let ?V = "if ?ov = 0 then ?add else py_prefix ?add (- ?ov)"
    let ?r = "(ret @ ?V) @ ?E"
    have r: "truncate_loop s maxlength (m # ms) ret tvl pos m_end = Inr ?r"
      using True m by (simp add: Let_def)
    have lVa: "length ?V \<le> a - pos"
    proof (cases "?ov = 0")
      case True
      then show ?thesis using la by simp
    next
      case False
      then have "?V = py_prefix ?add (- ?ov)" by simp
      then have "length ?V \<le> length ?add" using py_prefix_le [of ?add "- ?ov"] by simp
      then show ?thesis using la by simp
    qed
    have lV: "int (length ?V) \<le> maxlength - tvl"
    proof (cases "?ov = 0")
      case True
      then show ?thesis using la ok(1) by simp
    next
      case ne: False
      with True have pos: "?ov > 0" by simp
      then have "?V = take (length ?add - nat ?ov) ?add" by (simp add: py_prefix_def)
      then have "int (length ?V) \<le> int (length ?add - nat ?ov)" by simp
      also have "\<dots> = int (a - pos) - ?ov" using la ok(1) pos Cons.prems(7) by simp
      also have "\<dots> = maxlength - tvl" using ok(1) by simp
      finally show ?thesis .
    qed
    have "int (length (strip_units ?r)) \<le> int (length (strip_units (ret @ ?V)))"
      using strip_units_add_pure [OF ok(4), of "ret @ ?V"] by simp
    also have "\<dots> \<le> int (length (strip_units ret)) + int (length ?V)"
      using strip_units_append_le [of ret ?V] by linarith
    also have "\<dots> \<le> maxlength" using lV Cons.prems(5) by linarith
    finally have v: "int (length (strip_units ?r)) \<le> maxlength" .
    have "length ?r = length s \<longrightarrow> ?r = s"
    proof
      assume eq: "length ?r = length s"
      have "length ?r = pos + length ?V + (b - a)" using Cons.prems(2,3) lE by simp
      with lVa eq ok have e: "length ?V = a - pos" "b = length s" by linarith+
      have "?V = ?add"
      proof (cases "?ov = 0")
        case True
        then show ?thesis by simp
      next
        case False
        then have "?V = take (length ?add - nat ?ov) ?add" using True by (simp add: py_prefix_def)
        moreover have "length ?V = length ?add" using e la by simp
        ultimately show ?thesis using take_full [of "length ?add - nat ?ov" ?add] by simp
      qed
      then have "?r = take b s" using tb Cons.prems(3) by simp
      with e show "?r = s" by simp
    qed
    with r v show ?thesis by blast
  next
    case False
    let ?ret = "ret @ ?add @ ?E"
    let ?tvl = "tvl + (int a - int pos)"
    have step: "truncate_loop s maxlength (m # ms) ret tvl pos m_end
                  = truncate_loop s maxlength ms ?ret ?tvl b b"
      using False m by (simp add: Let_def)
    have "int (length (strip_units ?ret)) \<le> int (length (strip_units (ret @ ?add)))"
      using strip_units_add_pure [OF ok(4), of "ret @ ?add"] by simp
    also have "\<dots> \<le> int (length (strip_units ret)) + int (length ?add)"
      using strip_units_append_le [of ret ?add] by linarith
    also have "\<dots> \<le> ?tvl" using la ok(1) Cons.prems(5) by simp
    finally have i: "int (length (strip_units ?ret)) \<le> ?tvl" .
    have "\<exists>r. truncate_loop s maxlength ms ?ret ?tvl b b = Inr r \<and>
              int (length (strip_units r)) \<le> maxlength \<and> (length r = length s \<longrightarrow> r = s)"
    proof (rule Cons.IH [OF ok(5) ok(3) _ refl i])
      show "?ret = take b s" using tb Cons.prems(3) by simp
      show "0 \<le> ?tvl" using ok(1) Cons.prems(6) by simp
      show "?tvl \<le> maxlength" using False by simp
      show "ms = [] \<longrightarrow> ?tvl < maxlength" using False by simp
    qed
    with step show ?thesis by simp
  qed
qed

lemma spans_ok_last:
  "spans_ok s pos ms \<Longrightarrow> ms \<noteq> [] \<Longrightarrow> pure_esc (slice s (fst (last ms)) (snd (last ms)))"
  by (induction ms arbitrary: pos) (auto split: if_splits)

lemma keep_reset_visible:
  assumes "spans_ok s pos ms" and "ms \<noteq> []"
  shows "length (strip_units (keep_reset s ms ret)) \<le> length (strip_units ret)"
proof -
  obtain a b where l: "last ms = (a, b)" by (cases "last ms")
  have "pure_esc (slice s a b)" using spans_ok_last [OF assms] l by simp
  then have "length (strip_units (ret @ slice s a b)) \<le> length (strip_units ret)"
    by (rule strip_units_add_pure)
  then show ?thesis using l by (auto simp: keep_reset_def Let_def)
qed

lemma keep_reset_suffix:
  assumes "length ret \<noteq> length s" and "snd (last ms) = length s"
  shows "endswith (keep_reset s ms ret) (slice s (fst (last ms)) (length s))"
proof -
  obtain a b where l: "last ms = (a, b)" by (cases "last ms")
  with assms show ?thesis by (auto simp: keep_reset_def Let_def endswith_def intro: suffixI)
qed

lemma keep_reset_same: "length ret = length s \<Longrightarrow> keep_reset s ms ret = ret"
  by (simp add: keep_reset_def)

text \<open>
  C10, as stated, fails for a negative \<open>maxlength\<close>: \<open>s[:-1]\<close> drops one
  character only, so \<open>abc\<close> with \<open>maxlength = -1\<close> gives \<open>ab\<close>, of visible
  length 2; and on a text with an escape sequence the assertion in the code fails.
\<close>

theorem truncate_negative_maxlength_counterexample:
  "truncate_to_visible_length ''abc'' (- 1) = Inr ''ab'' \<and>
   \<not> int (length (strip_escapes ''ab'')) \<le> - 1 \<and>
   truncate_to_visible_length (ESC # ''[0mabc'') (- 1) = Inl AssertionError"
  by (simp add: truncate_to_visible_length_def finditer_def ESC_def Let_def
      slice_def py_prefix_def keep_reset_def endswith_def suffix_to_prefix)

text \<open>
  C10, amended. For every string \<open>s\<close> and every \<open>maxlength \<ge> 0\<close>,
  \<open>_truncate_to_visible_length\<close> returns (neither assertion fails), the visible
  length of the result (its length after \<open>RE_COLOR_ESCAPES.sub("", ...)\<close>) is at most
  \<open>maxlength\<close>, and when the result differs from \<open>s\<close> and the last match of the
  pattern in \<open>s\<close> ends the string, the result ends with that match.
\<close>

theorem truncate_visible_length:
  assumes "0 \<le> maxlength"
  shows "\<exists>r. truncate_to_visible_length s maxlength = Inr r \<and>
              int (length (strip_escapes r)) \<le> maxlength \<and>
              (r \<noteq> s \<and> finditer s \<noteq> [] \<and> snd (last (finditer s)) = length s \<longrightarrow>
                 endswith r (slice s (fst (last (finditer s))) (length s)))"
proof (cases "finditer s = []")
  case True
  have "length (strip_units (take (nat maxlength) s)) \<le> length (take (nat maxlength) s)"
    by (rule length_strip_units_le)
  also have "\<dots> \<le> nat maxlength" by (simp only: length_take min.cobounded2)
  finally have "int (length (strip_units (take (nat maxlength) s))) \<le> maxlength"
    using assms by linarith
  with True assms show ?thesis
    by (simp add: truncate_to_visible_length_def py_prefix_def strip_escapes_units)
next
  case False
  let ?ms = "finditer s"
  have ok: "spans_ok s 0 ?ms"
    unfolding finditer_def by (rule finditer_from_ok) simp_all
  obtain ret0 where r0: "truncate_loop s maxlength ?ms [] 0 0 0 = Inr ret0"
    and v0: "int (length (strip_units ret0)) \<le> maxlength"
    and e0: "length ret0 = length s \<longrightarrow> ret0 = s"
    using truncate_loop_ok [OF ok, of "[]" 0 0 maxlength] assms False by auto
  let ?r = "keep_reset s ?ms ret0"
  have v: "int (length (strip_escapes ?r)) \<le> maxlength"
    using keep_reset_visible [OF ok False, of ret0] v0 by (simp add: strip_escapes_units)
  then have res: "truncate_to_visible_length s maxlength = Inr ?r"
    using False r0 by (simp add: truncate_to_visible_length_def Let_def)
  have "endswith ?r (slice s (fst (last ?ms)) (length s))"
    if "?r \<noteq> s" "snd (last ?ms) = length s"
  proof -
    have "length ret0 \<noteq> length s"
    proof
      assume "length ret0 = length s"
      then have "?r = s" using e0 keep_reset_same by simp
      with that show False by simp
    qed
    then show ?thesis using that(2) by (rule keep_reset_suffix)
  qed
  with res v show ?thesis by blast
qed

theorem truncate_visible_length_witness:
  "(0::int) \<le> 3 \<and>
   truncate_to_visible_length red_hello 3 = Inr (ESC # ''[31mhel'' @ ESC # ''[0m'') \<and>
   int (length (strip_escapes (ESC # ''[31mhel'' @ ESC # ''[0m''))) \<le> 3 \<and>
   endswith (ESC # ''[31mhel'' @ ESC # ''[0m'') (ESC # ''[0m'')"
proof -
  have ev: "truncate_to_visible_length red_hello 3 = Inr (ESC # ''[31mhel'' @ ESC # ''[0m'')"
    by (simp add: truncate_to_visible_length_def finditer_def red_hello_def ESC_def Let_def
        slice_def py_prefix_def keep_reset_def endswith_def suffix_to_prefix)
  have fi: "finditer red_hello = [(0, 5), (10, 14)]" "length red_hello = 14"
    by (simp_all add: finditer_def red_hello_def ESC_def)
  have sl: "slice red_hello 10 14 = ESC # ''[0m''"
    by (simp add: slice_def red_hello_def)
  have ne: "ESC # ''[31mhel'' @ ESC # ''[0m'' \<noteq> red_hello"
    by (simp add: red_hello_def)
  from truncate_visible_length [of 3 red_hello] ev fi sl ne show ?thesis
    by simp
qed

section \<open>Properties of the line window\<close>

lemma length_numbered [simp]: "length (numbered lineno i xs) = length xs"
  by (induction xs arbitrary: i) auto

lemma ellipses_numbered [simp]: "ellipses (numbered lineno i xs) = []"
  by (induction xs arbitrary: i) (auto simp: ellipses_def)





lemma ellipses_append [simp]: "ellipses (xs @ ys) = ellipses xs @ ellipses ys"
  by (simp add: ellipses_def)

lemma ellipses_Cons_None [simp]: "ellipses ((None, x) # rows) = (None, x) # ellipses rows"
  by (simp add: ellipses_def)






section \<open>Properties of the completions\<close>

lemma get_all_list_completer_from:
  "i \<le> length xs \<Longrightarrow> get_all_completions (list_completer xs) i r = Some (r @ drop i xs)"
proof (induction "length xs - i" arbitrary: i r)
  case 0
  then show ?case by (subst get_all_completions.simps) (simp add: list_completer_def)
next
  case (Suc d)
  then have lt: "i < length xs" by simp
  have "get_all_completions (list_completer xs) i r
          = get_all_completions (list_completer xs) (i + 1) (r @ [xs ! i])"
    using lt by (subst get_all_completions.simps) (simp add: list_completer_def)
  also have "\<dots> = Some ((r @ [xs ! i]) @ drop (i + 1) xs)"
    using Suc lt by (intro Suc.hyps(1)) simp_all
  also have "(r @ [xs ! i]) @ drop (i + 1) xs = r @ drop i xs"
    using lt by (simp add: Cons_nth_drop_Suc)
  finally show ?case .
qed

lemma get_all_list_completer: "get_all_completions (list_completer xs) 0 [] = Some xs"
  using get_all_list_completer_from [of 0 xs "[]"] by simp

lemma filter_completions_fresh:
  "fst (lastcompstate self) \<noteq> Some text \<Longrightarrow>
   filter_completions self text
     = self\<lparr>lastcompstate := (Some text, 0), completions := underscore_filter text (completions self)\<rparr>"
  by (simp add: filter_completions_def)

lemma names_merged:
  "merge_completions False text [''a'', ''_p'', ''__d''] [] = [''a'', ''_p'', ''__d'']"
  by (simp add: merge_completions_def)

lemma names_attempt:
  "first_attempt names_completers text self =
     Some (filter_completions (self\<lparr>completions :=
             merge_completions (use_colors self) text [''a'', ''_p'', ''__d''] []\<rparr>) text)"
  by (simp add: first_attempt_def complete_def names_completers_def get_all_list_completer)

text \<open>
  C5, as stated, fails: there is no stage at which the names with one underscore are
  shown and those with two are not. With the candidates \<open>a\<close>, \<open>_p\<close>, \<open>__d\<close> and an
  empty text, the first and the second attempt give \<open>a\<close> alone, and the third gives
  all three names at once.
\<close>

theorem no_staged_reveal_counterexample:
  "map_option completions (first_attempt names_completers [] pdb0) = Some [''a''] \<and>
   map_option completions
     (Option.bind (first_attempt names_completers [] pdb0)
        (first_attempt names_completers [])) = Some [''a''] \<and>
   map_option completions
     (Option.bind (Option.bind (first_attempt names_completers [] pdb0)
        (first_attempt names_completers [])) (first_attempt names_completers []))
     = Some [''a'', ''_p'', ''__d'']"
  by (simp add: names_attempt names_merged filter_completions_def underscore_filter_def ESC_def)

text \<open>
  C5, amended. When the same text is submitted three times in a row (the state being
  that of another text before), the first and the second attempt give the merged
  candidates through the filter that the end of the text selects (names starting with
  \<open>_\<close> are dropped; after a text ending in \<open>_\<close> only names starting with \<open>__\<close>;
  after a text ending in \<open>__\<close> none), and the third and every later attempt give the
  merged candidates unfiltered: the names with one and with two underscores that the
  first two attempts left out appear together. An attempt with another text sets the
  state to that text with the counter 0.
\<close>

theorem third_attempt_unfiltered:
  assumes F: "get_all_completions (fancy_complete co text) 0 [] = Some F"
    and P: "get_all_completions (pdb_complete co text) 0 [] = Some P"
    and fresh: "fst (lastcompstate self) \<noteq> Some text"
  shows "\<exists>s1 s2 s3.
           first_attempt co text self = Some s1 \<and> first_attempt co text s1 = Some s2 \<and>
           first_attempt co text s2 = Some s3 \<and> first_attempt co text s3 = Some s3 \<and>
           completions s1 = underscore_filter text (merge_completions (use_colors self) text F P) \<and>
           completions s2 = underscore_filter text (merge_completions (use_colors self) text F P) \<and>
           completions s3 = merge_completions (use_colors self) text F P \<and>
           (\<forall>text' s4. text' \<noteq> text \<and> first_attempt co text' s3 = Some s4 \<longrightarrow>
              lastcompstate s4 = (Some text', 0))"
proof -
  let ?M = "merge_completions (use_colors self) text F P"
  let ?s1 = "self\<lparr>completions := underscore_filter text ?M, lastcompstate := (Some text, 0)\<rparr>"
  let ?s2 = "self\<lparr>completions := underscore_filter text ?M, lastcompstate := (Some text, 1)\<rparr>"
  let ?s3 = "self\<lparr>completions := ?M, lastcompstate := (Some text, 1)\<rparr>"
  have 1: "first_attempt co text self = Some ?s1"
    using F P fresh by (simp add: first_attempt_def complete_def filter_completions_def)
  have 2: "first_attempt co text ?s1 = Some ?s2"
    using F P by (simp add: first_attempt_def complete_def filter_completions_def)
  have 3: "first_attempt co text ?s2 = Some ?s3"
    using F P by (simp add: first_attempt_def complete_def filter_completions_def)
  have 4: "first_attempt co text ?s3 = Some ?s3"
    using F P by (simp add: first_attempt_def complete_def filter_completions_def)
  have 5: "lastcompstate s4 = (Some text', 0)"
    if "text' \<noteq> text" "first_attempt co text' ?s3 = Some s4" for text' s4
    using that
    by (auto simp: first_attempt_def complete_def filter_completions_def split: option.splits)
  from 1 2 3 4 5 show ?thesis by (intro exI [of _ ?s1] exI [of _ ?s2] exI [of _ ?s3]) auto
qed

theorem third_attempt_unfiltered_witness:
  "\<exists>s1 s2 s3.
     first_attempt names_completers [] pdb0 = Some s1 \<and>
     first_attempt names_completers [] s1 = Some s2 \<and>
     first_attempt names_completers [] s2 = Some s3 \<and>
     completions s1 = [''a''] \<and> completions s2 = [''a''] \<and>
     completions s3 = [''a'', ''_p'', ''__d'']"
proof -
  have F: "get_all_completions (fancy_complete names_completers []) 0 []
             = Some [''a'', ''_p'', ''__d'']"
    and P: "get_all_completions (pdb_complete names_completers []) 0 [] = Some []"
    by (simp_all add: names_completers_def get_all_list_completer)
  have fresh: "fst (lastcompstate pdb0) \<noteq> Some []" by simp
  have u: "underscore_filter [] [''a'', ''_p'', ''__d''] = [''a'']"
    by (simp add: underscore_filter_def ESC_def)
  from third_attempt_unfiltered [OF F P fresh] show ?thesis
    by (simp add: names_merged u) blast
qed

end
